theory Spec2Isabelle
  imports Complex_Main "HOL-Library.Multiset" "HOL-Library.Char_ord" "HOL-Library.List_Lexorder"
begin

section \<open>The feedback store of server.js\<close>

text \<open>
  The server keeps two module-level variables, \<^verbatim>\<open>feedback\<close> (an array, newest record first)
  and \<^verbatim>\<open>feedbackIdCounter\<close>. Every handler runs to completion before the next one starts, so
  a handler is a function from the store to a response and a new store.

  Modelling conventions.
  \<^item> JavaScript numbers that hold ids, counts and indices are exact integers (they stay far below
    \<open>2^53\<close>), so they are \<open>int\<close> or \<open>nat\<close> here.
  \<^item> Request values (body fields, query parameters) are strings; strings are lists of
    characters, compared as JavaScript compares them (lexicographically, a proper prefix first).
  \<^item> A timestamp is the number of milliseconds that its ISO-8601 text denotes:
    \<^verbatim>\<open>new Date(x.toISOString())\<close> has the time value of \<^verbatim>\<open>x\<close>. The wall clock is read by
    \<^verbatim>\<open>new Date()\<close>; each reading is an argument of the handler that makes it.
\<close>

record feedback_item =
  item_id :: int
  title :: string
  description :: string
  type :: string
  priority :: string
  email :: string
  status :: string
  createdAt :: int
  updatedAt :: int

record store =
  feedback :: "feedback_item list"
  feedbackIdCounter :: int

text \<open>\<^verbatim>\<open>let feedback = []; let feedbackIdCounter = 1;\<close>\<close>

definition initial :: store where
  "initial = \<lparr>feedback = [], feedbackIdCounter = 1\<rparr>"

datatype error =
  ValidationError "string list"
  | NotFound
  | NoValidFields

type_synonym response = "error + feedback_item"

subsection \<open>String helpers of the runtime\<close>

text \<open>\<^verbatim>\<open>String.prototype.trim\<close> and \<^verbatim>\<open>toLowerCase\<close>, on ASCII text.\<close>

definition isSpace :: "char \<Rightarrow> bool" where
  "isSpace c = (c \<in> set [CHR 0x09, CHR 0x0A, CHR 0x0B, CHR 0x0C, CHR 0x0D, CHR '' ''])"

definition trim :: "string \<Rightarrow> string" where
  "trim s = rev (dropWhile isSpace (rev (dropWhile isSpace s)))"

definition toLowerCase :: "string \<Rightarrow> string" where
  "toLowerCase s =
     map (\<lambda>c. if CHR ''A'' \<le> c \<and> c \<le> CHR ''Z'' then char_of (of_char c + (32::nat)) else c) s"

text \<open>\<^verbatim>\<open>Array.prototype.findIndex\<close>: the first index whose element satisfies the predicate;
  \<open>None\<close> stands for the result \<open>-1\<close>.\<close>

fun findIndex :: "('a \<Rightarrow> bool) \<Rightarrow> 'a list \<Rightarrow> nat option" where
  "findIndex P [] = None"
| "findIndex P (x # xs) = (if P x then Some 0 else map_option Suc (findIndex P xs))"

subsection \<open>Create\<close>

text \<open>
  The body of \<^verbatim>\<open>POST /api/feedback\<close>. A field that is absent reaches the validators as the
  empty string and fails its rule, so the five fields are strings.
\<close>

record create_body =
  b_title :: string
  b_description :: string
  b_type :: string
  b_priority :: string
  b_email :: string

text \<open>
  \<^verbatim>\<open>validateFeedback\<close> followed by \<^verbatim>\<open>handleValidationErrors\<close>: every rule is checked and the
  messages of all failed rules are collected. \<^verbatim>\<open>isEmail\<close> belongs to the validation library;
  it is a parameter.
\<close>

definition validateFeedback :: "(string \<Rightarrow> bool) \<Rightarrow> create_body \<Rightarrow> string list" where
  "validateFeedback isEmail b =
     (if 1 \<le> length (trim (b_title b)) \<and> length (trim (b_title b)) \<le> 200 then []
      else [''Title must be 1-200 characters'']) @
     (if 1 \<le> length (trim (b_description b)) \<and> length (trim (b_description b)) \<le> 2000 then []
      else [''Description must be 1-2000 characters'']) @
     (if b_type b \<in> set [''bug'', ''feature'', ''improvement'', ''other''] then []
      else [''Invalid feedback type'']) @
     (if b_priority b \<in> set [''low'', ''medium'', ''high''] then []
      else [''Invalid priority level'']) @
     (if isEmail (b_email b) then [] else [''Valid email is required''])"

text \<open>
  The handler of \<^verbatim>\<open>POST /api/feedback\<close>. \<open>now1\<close> and \<open>now2\<close> are the two clock readings that
  stamp \<^verbatim>\<open>createdAt\<close> and \<^verbatim>\<open>updatedAt\<close>. \<^verbatim>\<open>feedbackIdCounter++\<close> yields the old value and
  stores the incremented one; \<^verbatim>\<open>unshift\<close> puts the new record at the head.
\<close>

definition createFeedback ::
  "(string \<Rightarrow> bool) \<Rightarrow> int \<Rightarrow> int \<Rightarrow> create_body \<Rightarrow> store \<Rightarrow> response \<times> store" where
  "createFeedback isEmail now1 now2 b st =
     (let errors = validateFeedback isEmail b in
      if errors \<noteq> [] then (Inl (ValidationError errors), st)
      else
        let newFeedback =
              \<lparr>item_id = feedbackIdCounter st,
               title = trim (b_title b),
               description = trim (b_description b),
               type = b_type b,
               priority = b_priority b,
               email = trim (toLowerCase (b_email b)),
               status = ''pending'',
               createdAt = now1,
               updatedAt = now2\<rparr>
        in (Inr newFeedback,
            st\<lparr>feedback := newFeedback # feedback st,
               feedbackIdCounter := feedbackIdCounter st + 1\<rparr>))"

subsection \<open>Update\<close>

text \<open>
  The body of \<^verbatim>\<open>PUT /api/feedback/:id\<close> is a JSON object: its keys in order with their values.
  The path parameter goes through \<^verbatim>\<open>parseInt\<close>; \<open>None\<close> stands for \<^verbatim>\<open>NaN\<close>, which is equal to
  no id.
\<close>

type_synonym jsobject = "(string \<times> string) list"

definition allowedUpdates :: "string list" where
  "allowedUpdates = [''status'', ''priority'']"

text \<open>The \<^verbatim>\<open>forEach\<close> over \<^verbatim>\<open>Object.keys(req.body)\<close> that fills \<^verbatim>\<open>updates\<close>.\<close>

definition pickUpdates :: "jsobject \<Rightarrow> jsobject" where
  "pickUpdates body = filter (\<lambda>kv. fst kv \<in> set allowedUpdates) body"

text \<open>The object spread \<^verbatim>\<open>{...item, ...updates, updatedAt: now}\<close>.\<close>

definition setField :: "feedback_item \<Rightarrow> string \<times> string \<Rightarrow> feedback_item" where
  "setField item kv =
     (if fst kv = ''status'' then item\<lparr>status := snd kv\<rparr>
      else if fst kv = ''priority'' then item\<lparr>priority := snd kv\<rparr>
      else item)"

definition spread :: "feedback_item \<Rightarrow> jsobject \<Rightarrow> int \<Rightarrow> feedback_item" where
  "spread item updates now = (foldl setField item updates)\<lparr>updatedAt := now\<rparr>"

definition updateFeedback ::
  "int \<Rightarrow> int option \<Rightarrow> jsobject \<Rightarrow> store \<Rightarrow> response \<times> store" where
  "updateFeedback now ident body st =
     (case findIndex (\<lambda>item. Some (item_id item) = ident) (feedback st) of
        None \<Rightarrow> (Inl NotFound, st)
      | Some feedbackIndex \<Rightarrow>
          let updates = pickUpdates body in
          if length updates = 0 then (Inl NoValidFields, st)
          else
            let item = spread (feedback st ! feedbackIndex) updates now
            in (Inr item, st\<lparr>feedback := (feedback st)[feedbackIndex := item]\<rparr>))"

subsection \<open>Delete\<close>

text \<open>\<^verbatim>\<open>splice(feedbackIndex, 1)\<close> removes one element and returns it.\<close>

definition deleteFeedback :: "int option \<Rightarrow> store \<Rightarrow> response \<times> store" where
  "deleteFeedback ident st =
     (case findIndex (\<lambda>item. Some (item_id item) = ident) (feedback st) of
        None \<Rightarrow> (Inl NotFound, st)
      | Some feedbackIndex \<Rightarrow>
          (Inr (feedback st ! feedbackIndex),
           st\<lparr>feedback := take feedbackIndex (feedback st) @ drop (Suc feedbackIndex) (feedback st)\<rparr>))"

subsection \<open>Sequences of requests\<close>

datatype request =
  Create int int create_body
  | Update int "int option" jsobject
  | Delete "int option"

fun handle :: "(string \<Rightarrow> bool) \<Rightarrow> request \<Rightarrow> store \<Rightarrow> response \<times> store" where
  "handle isEmail (Create now1 now2 b) st = createFeedback isEmail now1 now2 b st"
| "handle isEmail (Update now ident body) st = updateFeedback now ident body st"
| "handle isEmail (Delete ident) st = deleteFeedback ident st"

text \<open>The responses of a sequence of requests, in order, and the store it leaves.\<close>

fun run :: "(string \<Rightarrow> bool) \<Rightarrow> request list \<Rightarrow> store \<Rightarrow> response list \<times> store" where
  "run isEmail [] st = ([], st)"
| "run isEmail (r # rs) st =
     (let (resp, st1) = handle isEmail r st;
          (resps, st2) = run isEmail rs st1
      in (resp # resps, st2))"

text \<open>The ids that the successful creates of a sequence handed out, in order.\<close>

fun createdIds :: "request list \<Rightarrow> response list \<Rightarrow> int list" where
  "createdIds (Create now1 now2 b # rs) (Inr item # resps) = item_id item # createdIds rs resps"
| "createdIds (r # rs) (resp # resps) = createdIds rs resps"
| "createdIds rs resps = []"

section \<open>The list endpoint\<close>

subsection \<open>The comparator passed to \<^verbatim>\<open>sort\<close>\<close>

text \<open>
  The values that \<^verbatim>\<open>a[sort]\<close> can have: a number (\<^verbatim>\<open>id\<close>), a string, the ISO text of a
  timestamp, the \<^verbatim>\<open>Date\<close> object built from one, and \<^verbatim>\<open>undefined\<close> for a name that is no
  field of a record.
\<close>

datatype jsval = Undefined | Num int | Str string | IsoText int | DateObj int

definition getField :: "feedback_item \<Rightarrow> string \<Rightarrow> jsval" where
  "getField a key =
     (if key = ''id'' then Num (item_id a)
      else if key = ''title'' then Str (title a)
      else if key = ''description'' then Str (description a)
      else if key = ''type'' then Str (type a)
      else if key = ''priority'' then Str (priority a)
      else if key = ''email'' then Str (email a)
      else if key = ''status'' then Str (status a)
      else if key = ''createdAt'' then IsoText (createdAt a)
      else if key = ''updatedAt'' then IsoText (updatedAt a)
      else Undefined)"

text \<open>\<^verbatim>\<open>new Date(v)\<close>; the handler applies it to the two timestamp fields only.\<close>

fun newDate :: "jsval \<Rightarrow> jsval" where
  "newDate (IsoText t) = DateObj t"
| "newDate v = v"

text \<open>
  The operator \<^verbatim>\<open>>\<close> on two values of one field: numbers and dates by value, strings
  lexicographically; every comparison with \<^verbatim>\<open>undefined\<close> is false. The two values
  that the comparator compares come from one field of two records, so they are of one
  kind, and the text of a timestamp has been turned into a date before.
\<close>

fun js_gt :: "jsval \<Rightarrow> jsval \<Rightarrow> bool" where
  "js_gt (Num x) (Num y) = (x > y)"
| "js_gt (Str s) (Str t) = (s > t)"
| "js_gt (DateObj x) (DateObj y) = (x > y)"
| "js_gt (IsoText x) (IsoText y) = (x > y)"
| "js_gt u v = False"

text \<open>The arrow function of lines 97 to 110 (\<open>sortKey\<close> is the variable \<^verbatim>\<open>sort\<close>). It returns
  \<open>1\<close> or \<open>-1\<close>.\<close>

definition compareFn :: "string \<Rightarrow> string \<Rightarrow> feedback_item \<Rightarrow> feedback_item \<Rightarrow> int" where
  "compareFn sortKey order a b =
     (let aVal = getField a sortKey;
          bVal = getField b sortKey;
          aVal = (if sortKey = ''createdAt'' \<or> sortKey = ''updatedAt'' then newDate aVal else aVal);
          bVal = (if sortKey = ''createdAt'' \<or> sortKey = ''updatedAt'' then newDate bVal else bVal)
      in if order = ''desc'' then (if js_gt bVal aVal then 1 else - 1)
         else (if js_gt aVal bVal then 1 else - 1))"

subsection \<open>\<^verbatim>\<open>Array.prototype.sort\<close>\<close>

text \<open>
  The sort is the runtime's, not the repository's, so the list endpoint below takes it as a
  parameter \<open>sortFn\<close>. The language standard promises a stable sort for a comparator that is
  consistent (in particular one that returns \<open>0\<close> on equal keys and is antisymmetric); for any
  other comparator the order of the result is left to the engine, and the result is some
  rearrangement of the array.

  \<open>arraySort\<close> is the sort as the engine of Node.js (the README asks for version 16 or
  later) runs it on an array of fewer than 64 elements: the first run is counted (a strictly
  descending run is reversed), then every further element is put into place by binary
  insertion. The comparator is always called with the later element first.
\<close>

type_synonym 'a sortfn = "('a \<Rightarrow> 'a \<Rightarrow> int) \<Rightarrow> 'a list \<Rightarrow> 'a list"

fun runLength :: "('a \<Rightarrow> 'a \<Rightarrow> int) \<Rightarrow> bool \<Rightarrow> 'a \<Rightarrow> 'a list \<Rightarrow> nat" where
  "runLength cmp isDescending previous [] = 0"
| "runLength cmp isDescending previous (current # rest) =
     (let order = cmp current previous in
      if (if isDescending then order \<ge> 0 else order < 0) then 0
      else Suc (runLength cmp isDescending current rest))"

definition countAndMakeRun :: "('a \<Rightarrow> 'a \<Rightarrow> int) \<Rightarrow> 'a list \<Rightarrow> 'a list \<times> 'a list" where
  "countAndMakeRun cmp xs =
     (case xs of
        x0 # x1 # rest \<Rightarrow>
          let isDescending = (cmp x1 x0 < 0);
              n = 2 + runLength cmp isDescending x1 rest
          in (if isDescending then rev (take n xs) else take n xs, drop n xs)
      | _ \<Rightarrow> (xs, []))"

function bsearch :: "('a \<Rightarrow> 'a \<Rightarrow> int) \<Rightarrow> 'a \<Rightarrow> 'a list \<Rightarrow> nat \<Rightarrow> nat \<Rightarrow> nat" where
  "bsearch cmp pivot a left right =
     (if left < right then
        let mid = left + (right - left) div 2 in
        if cmp pivot (a ! mid) < 0 then bsearch cmp pivot a left mid
        else bsearch cmp pivot a (mid + 1) right
      else left)"
  by pat_completeness auto
termination
  by (relation "measure (\<lambda>(cmp, pivot, a, left, right). right - left)") auto

declare bsearch.simps [simp del]

definition insertPivot :: "('a \<Rightarrow> 'a \<Rightarrow> int) \<Rightarrow> 'a list \<Rightarrow> 'a \<Rightarrow> 'a list" where
  "insertPivot cmp a pivot =
     (let left = bsearch cmp pivot a 0 (length a) in take left a @ pivot # drop left a)"

definition binaryInsertionSort :: "('a \<Rightarrow> 'a \<Rightarrow> int) \<Rightarrow> 'a list \<Rightarrow> 'a list \<Rightarrow> 'a list" where
  "binaryInsertionSort cmp a rest = foldl (insertPivot cmp) a rest"

definition arraySort :: "'a sortfn" where
  "arraySort cmp xs =
     (if length xs < 2 then xs
      else case countAndMakeRun cmp xs of (a, rest) \<Rightarrow> binaryInsertionSort cmp a rest)"

subsection \<open>\<^verbatim>\<open>GET /api/feedback\<close>\<close>

text \<open>
  The query string. \<open>None\<close> is an absent parameter; \<^verbatim>\<open>page\<close> and \<^verbatim>\<open>limit\<close> are decimal
  integers, on which the arithmetic coercion and \<^verbatim>\<open>parseInt\<close> agree.
\<close>

record query =
  q_status :: "string option"
  q_type :: "string option"
  q_priority :: "string option"
  q_page :: "int option"
  q_limit :: "int option"
  q_sort :: "string option"
  q_order :: "string option"

text \<open>The defaults of the destructuring in line 81.\<close>

definition pageOf :: "query \<Rightarrow> int" where
  "pageOf q = (case q_page q of None \<Rightarrow> 1 | Some p \<Rightarrow> p)"

definition limitOf :: "query \<Rightarrow> int" where
  "limitOf q = (case q_limit q of None \<Rightarrow> 10 | Some l \<Rightarrow> l)"

definition sortOf :: "query \<Rightarrow> string" where
  "sortOf q = (case q_sort q of None \<Rightarrow> ''createdAt'' | Some s \<Rightarrow> s)"

definition orderOf :: "query \<Rightarrow> string" where
  "orderOf q = (case q_order q of None \<Rightarrow> ''desc'' | Some s \<Rightarrow> s)"

text \<open>The guard \<^verbatim>\<open>v && v !== 'all'\<close>: an absent parameter and the empty string are falsy.\<close>

definition filterActive :: "string option \<Rightarrow> bool" where
  "filterActive v = (case v of None \<Rightarrow> False | Some s \<Rightarrow> s \<noteq> [] \<and> s \<noteq> ''all'')"

definition applyFilters :: "query \<Rightarrow> feedback_item list \<Rightarrow> feedback_item list" where
  "applyFilters q fb =
     (let f1 = (if filterActive (q_status q)
                then filter (\<lambda>item. Some (status item) = q_status q) fb else fb);
          f2 = (if filterActive (q_type q)
                then filter (\<lambda>item. Some (type item) = q_type q) f1 else f1);
          f3 = (if filterActive (q_priority q)
                then filter (\<lambda>item. Some (priority item) = q_priority q) f2 else f2)
      in f3)"

text \<open>\<^verbatim>\<open>Array.prototype.slice(start, end)\<close>: a negative index counts from the end, and both
  indices are clipped to the array.\<close>

definition js_slice :: "'a list \<Rightarrow> int \<Rightarrow> int \<Rightarrow> 'a list" where
  "js_slice xs start fin =
     (let len = int (length xs);
          k = (if start < 0 then max (len + start) 0 else min start len);
          final = (if fin < 0 then max (len + fin) 0 else min fin len)
      in take (nat (final - k)) (drop (nat k) xs))"

text \<open>\<^verbatim>\<open>Math.ceil(n / limit)\<close>. For \<open>limit = 0\<close> the quotient is \<^verbatim>\<open>Infinity\<close> or \<^verbatim>\<open>NaN\<close>, which
  the JSON response shows as \<^verbatim>\<open>null\<close>: \<open>None\<close>.\<close>

definition ceilDiv :: "nat \<Rightarrow> int \<Rightarrow> int option" where
  "ceilDiv n limit = (if limit = 0 then None else Some (- ((- int n) div limit)))"

record pagination_info =
  currentPage :: int
  totalPages :: "int option"
  totalItems :: nat
  itemsPerPage :: int

record list_stats =
  s_total :: nat
  s_pending :: nat
  s_reviewed :: nat
  s_resolved :: nat

record list_response =
  data :: "feedback_item list"
  pagination :: pagination_info
  stats :: list_stats

text \<open>
  The handler. \<^verbatim>\<open>filteredFeedback\<close> starts as a copy of the array (\<^verbatim>\<open>[...feedback]\<close>) and
  \<^verbatim>\<open>filter\<close> returns a new array, so the sort, which works in place, never touches
  \<^verbatim>\<open>feedback\<close>; the statistics are computed from \<^verbatim>\<open>feedback\<close>.
\<close>

definition getFeedback :: "feedback_item sortfn \<Rightarrow> query \<Rightarrow> feedback_item list \<Rightarrow> list_response" where
  "getFeedback sortFn q fb =
     (let filteredFeedback = sortFn (compareFn (sortOf q) (orderOf q)) (applyFilters q fb);
          startIndex = (pageOf q - 1) * limitOf q;
          endIndex = startIndex + limitOf q;
          paginatedFeedback = js_slice filteredFeedback startIndex endIndex
      in \<lparr>data = paginatedFeedback,
          pagination =
            \<lparr>currentPage = pageOf q,
             totalPages = ceilDiv (length filteredFeedback) (limitOf q),
             totalItems = length filteredFeedback,
             itemsPerPage = limitOf q\<rparr>,
          stats =
            \<lparr>s_total = length fb,
             s_pending = length (filter (\<lambda>f. status f = ''pending'') fb),
             s_reviewed = length (filter (\<lambda>f. status f = ''reviewed'') fb),
             s_resolved = length (filter (\<lambda>f. status f = ''resolved'') fb)\<rparr>\<rparr>)"

section \<open>Statistics\<close>

record by_status =
  pending :: nat
  reviewed :: nat
  resolved :: nat

record by_type =
  bug :: nat
  feature :: nat
  improvement :: nat
  other :: nat

record by_priority =
  low :: nat
  medium :: nat
  high :: nat

record feedback_stats =
  total :: nat
  byStatus :: by_status
  byType :: by_type
  byPriority :: by_priority

definition getFeedbackStats :: "feedback_item list \<Rightarrow> feedback_stats" where
  "getFeedbackStats fb =
     \<lparr>total = length fb,
      byStatus =
        \<lparr>pending = length (filter (\<lambda>f. status f = ''pending'') fb),
         reviewed = length (filter (\<lambda>f. status f = ''reviewed'') fb),
         resolved = length (filter (\<lambda>f. status f = ''resolved'') fb)\<rparr>,
      byType =
        \<lparr>bug = length (filter (\<lambda>f. type f = ''bug'') fb),
         feature = length (filter (\<lambda>f. type f = ''feature'') fb),
         improvement = length (filter (\<lambda>f. type f = ''improvement'') fb),
         other = length (filter (\<lambda>f. type f = ''other'') fb)\<rparr>,
      byPriority =
        \<lparr>low = length (filter (\<lambda>f. priority f = ''low'') fb),
         medium = length (filter (\<lambda>f. priority f = ''medium'') fb),
         high = length (filter (\<lambda>f. priority f = ''high'') fb)\<rparr>\<rparr>"

subsection \<open>The most common type\<close>

text \<open>
  \<^verbatim>\<open>typeCounts\<close> is an object used as a dictionary: \<^verbatim>\<open>Object.keys\<close> lists its keys in the
  order in which they were first written (the four type names are not array indices), so it
  is a list of pairs. \<open>bump\<close> is \<^verbatim>\<open>acc[t] = (acc[t] || 0) + 1\<close>.
\<close>

fun bump :: "(string \<times> nat) list \<Rightarrow> string \<Rightarrow> (string \<times> nat) list" where
  "bump [] t = [(t, 1)]"
| "bump ((k, n) # rest) t = (if k = t then (k, n + 1) # rest else (k, n) # bump rest t)"

definition typeCounts :: "feedback_item list \<Rightarrow> (string \<times> nat) list" where
  "typeCounts fb = foldl (\<lambda>acc f. bump acc (type f)) [] fb"

text \<open>\<^verbatim>\<open>typeCounts[a] > typeCounts[b]\<close>; a missing key reads as \<^verbatim>\<open>undefined\<close>, and the
  comparison is then false.\<close>

fun countGt :: "nat option \<Rightarrow> nat option \<Rightarrow> bool" where
  "countGt (Some x) (Some y) = (x > y)"
| "countGt u v = False"

definition getMostCommonType :: "feedback_item list \<Rightarrow> string" where
  "getMostCommonType fb =
     (let tc = typeCounts fb in
      foldl (\<lambda>a b. if countGt (map_of tc a) (map_of tc b) then a else b)
        ''feature'' (map fst tc))"

section \<open>Vocabulary of the properties\<close>

text \<open>What the standard promises of \<^verbatim>\<open>sort\<close> for every comparator: the result is a
  rearrangement of the array.\<close>

definition rearranges :: "'a sortfn \<Rightarrow> bool" where
  "rearranges sortFn = (\<forall>cmp xs. mset (sortFn cmp xs) = mset xs)"

text \<open>A record passes a filter parameter when the parameter is absent, empty, the word
  \<^verbatim>\<open>all\<close>, or equal to the record's field.\<close>

definition matchesFilter :: "string option \<Rightarrow> string \<Rightarrow> bool" where
  "matchesFilter v x = (v = None \<or> v = Some [] \<or> v = Some ''all'' \<or> v = Some x)"

text \<open>The number of records of a type, counted as \<open>getFeedbackStats\<close> counts them.\<close>

definition countOfType :: "string \<Rightarrow> feedback_item list \<Rightarrow> nat" where
  "countOfType t fb = length (filter (\<lambda>f. type f = t) fb)"

text \<open>The four type names that \<open>validateFeedback\<close> lets through.\<close>

definition validType :: "feedback_item \<Rightarrow> bool" where
  "validType f = (type f \<in> set [''bug'', ''feature'', ''improvement'', ''other''])"

fun isCreate :: "request \<Rightarrow> bool" where
  "isCreate (Create now1 now2 b) = True"
| "isCreate r = False"

subsection \<open>Sample data\<close>

text \<open>
  A stand-in for the library's \<^verbatim>\<open>isEmail\<close> in the examples, the body of the README's request
  (with the e-mail address in mixed case), and the records that such creates leave behind.
\<close>

definition sampleIsEmail :: "string \<Rightarrow> bool" where
  "sampleIsEmail e = (CHR ''@'' \<in> set e)"

definition sampleBody :: create_body where
  "sampleBody =
     \<lparr>b_title = ''Login broken'', b_description = ''Click does nothing'', b_type = ''bug'',
      b_priority = ''high'', b_email = ''USER@Example.com''\<rparr>"

definition sampleItem :: "int \<Rightarrow> string \<Rightarrow> string \<Rightarrow> string \<Rightarrow> int \<Rightarrow> feedback_item" where
  "sampleItem n ty pr stt t =
     \<lparr>item_id = n, title = ''Login broken'', description = ''Click does nothing'', type = ty,
      priority = pr, email = ''user@example.com'', status = stt, createdAt = t, updatedAt = t\<rparr>"

definition defaultQuery :: query where
  "defaultQuery =
     \<lparr>q_status = None, q_type = None, q_priority = None, q_page = None, q_limit = None,
      q_sort = None, q_order = None\<rparr>"

definition itemA :: feedback_item where
  "itemA = sampleItem 1 ''bug'' ''high'' ''pending'' 5"

definition itemB :: feedback_item where
  "itemB = sampleItem 2 ''bug'' ''high'' ''pending'' 6"

definition itemC :: feedback_item where
  "itemC = sampleItem 3 ''other'' ''low'' ''resolved'' 7"

text \<open>A record created in the same millisecond as \<open>itemA\<close>.\<close>

definition itemD :: feedback_item where
  "itemD = sampleItem 4 ''bug'' ''high'' ''pending'' 5"

definition sampleStore :: store where
  "sampleStore = \<lparr>feedback = [itemC, itemB, itemA], feedbackIdCounter = 4\<rparr>"

text \<open>A create followed by an update whose values are no members of the enumerations.\<close>

definition badUpdate :: "request list" where
  "badUpdate =
     [Create 5 5 sampleBody, Update 6 (Some 1) [(''status'', ''bogus''), (''priority'', ''urgent'')]]"

lemmas sample_defs = itemA_def itemB_def itemC_def itemD_def sampleStore_def sampleItem_def sampleBody_def
  defaultQuery_def badUpdate_def

section \<open>Lemmas about the store\<close>

lemma findIndex_Some:
  "findIndex P xs = Some i \<Longrightarrow> i < length xs \<and> P (xs ! i) \<and> (\<forall>j<i. \<not> P (xs ! j))"
proof (induction xs arbitrary: i)
  case Nil
  then show ?case by simp
next
  case (Cons x xs)
  show ?case
  proof (cases "P x")
    case True
    with Cons.prems show ?thesis by simp
  next
    case False
    with Cons.prems obtain k where k: "findIndex P xs = Some k" "i = Suc k"
      by auto
    from Cons.IH [OF k(1)] False k(2) show ?thesis
      by (auto simp: nth_Cons split: nat.splits)
  qed
qed

lemma findIndex_None: "findIndex P xs = None \<longleftrightarrow> (\<forall>x\<in>set xs. \<not> P x)"
  by (induction xs) auto

lemma findIndex_first:
  "i < length xs \<Longrightarrow> P (xs ! i) \<Longrightarrow> (\<forall>j<i. \<not> P (xs ! j)) \<Longrightarrow> findIndex P xs = Some i"
proof (induction xs arbitrary: i)
  case Nil
  then show ?case by simp
next
  case (Cons x xs)
  show ?case
  proof (cases i)
    case 0
    with Cons.prems show ?thesis by simp
  next
    case (Suc k)
    with Cons.prems have "\<not> P x" by auto
    moreover from Suc Cons.prems have "findIndex P xs = Some k"
      by (intro Cons.IH) auto
    ultimately show ?thesis using Suc by simp
  qed
qed

lemma pickUpdates_empty:
  "set (map fst body) \<inter> set allowedUpdates = {} \<Longrightarrow> pickUpdates body = []"
  by (auto simp: pickUpdates_def filter_empty_conv)

lemma createFeedback_Inr:
  "createFeedback isEmail now1 now2 b st = (Inr item, st') \<Longrightarrow>
     item_id item = feedbackIdCounter st \<and>
     feedbackIdCounter st' = feedbackIdCounter st + 1 \<and>
     feedback st' = item # feedback st"
  by (auto simp: createFeedback_def Let_def split: if_splits)

lemma createFeedback_Inl:
  "createFeedback isEmail now1 now2 b st = (Inl e, st') \<Longrightarrow> st' = st"
  by (auto simp: createFeedback_def Let_def split: if_splits)

lemma updateFeedback_counter:
  "feedbackIdCounter (snd (updateFeedback now ident body st)) = feedbackIdCounter st"
  by (simp add: updateFeedback_def Let_def split: option.splits)

lemma deleteFeedback_counter:
  "feedbackIdCounter (snd (deleteFeedback ident st)) = feedbackIdCounter st"
  by (simp add: deleteFeedback_def split: option.splits)

lemma setField_id: "item_id (setField item kv) = item_id item"
  by (simp add: setField_def)

lemma foldl_setField_id: "item_id (foldl setField item kvs) = item_id item"
  by (induction kvs arbitrary: item) (simp_all add: setField_id)

lemma spread_id: "item_id (spread item updates now) = item_id item"
  by (simp add: spread_def foldl_setField_id)

lemma updateFeedback_ids:
  "map item_id (feedback (snd (updateFeedback now ident body st))) = map item_id (feedback st)"
proof (cases "findIndex (\<lambda>item. Some (item_id item) = ident) (feedback st)")
  case None
  then show ?thesis by (simp add: updateFeedback_def)
next
  case (Some i)
  from findIndex_Some [OF Some] have "i < length (feedback st)" by simp
  then have "(map item_id (feedback st))[i := item_id (feedback st ! i)] = map item_id (feedback st)"
    by (simp add: list_update_same_conv)
  with Some show ?thesis
    by (simp add: updateFeedback_def Let_def map_update spread_id)
qed

lemma deleteFeedback_remaining:
  "\<exists>i. feedback (snd (deleteFeedback ident st)) = take i (feedback st) @ drop (Suc i) (feedback st)"
proof (cases "findIndex (\<lambda>item. Some (item_id item) = ident) (feedback st)")
  case None
  then have "feedback (snd (deleteFeedback ident st)) =
      take (length (feedback st)) (feedback st) @ drop (Suc (length (feedback st))) (feedback st)"
    by (simp add: deleteFeedback_def)
  then show ?thesis ..
next
  case (Some i)
  then have "feedback (snd (deleteFeedback ident st)) =
      take i (feedback st) @ drop (Suc i) (feedback st)"
    by (simp add: deleteFeedback_def)
  then show ?thesis ..
qed

lemma updateFeedback_priority_high:
  assumes "i < length (feedback st)"
    and "item_id (feedback st ! i) = n"
    and "\<forall>j<i. item_id (feedback st ! j) \<noteq> n"
  shows "updateFeedback now (Some n) [(''priority'', ''high'')] st =
           (Inr ((feedback st ! i)\<lparr>priority := ''high'', updatedAt := now\<rparr>),
            st\<lparr>feedback := (feedback st)[i := (feedback st ! i)\<lparr>priority := ''high'', updatedAt := now\<rparr>]\<rparr>)"
proof -
  from assms have "findIndex (\<lambda>item. Some (item_id item) = Some n) (feedback st) = Some i"
    by (intro findIndex_first) auto
  then show ?thesis
    by (simp add: updateFeedback_def pickUpdates_def allowedUpdates_def spread_def setField_def Let_def)
qed

subsection \<open>Ids handed out by a sequence of requests\<close>

lemma run_counter:
  "\<exists>n. createdIds rs (fst (run isEmail rs st)) =
          [feedbackIdCounter st .. feedbackIdCounter st + int n - 1] \<and>
       feedbackIdCounter (snd (run isEmail rs st)) = feedbackIdCounter st + int n"
proof (induction rs arbitrary: st)
  case Nil
  show ?case by (rule exI [of _ 0]) simp
next
  case (Cons r rs)
  obtain resp st1 where h: "handle isEmail r st = (resp, st1)" by (cases "handle isEmail r st")
  obtain resps st2 where t: "run isEmail rs st1 = (resps, st2)" by (cases "run isEmail rs st1")
  from Cons.IH [of st1] t obtain n where
    ih: "createdIds rs resps = [feedbackIdCounter st1 .. feedbackIdCounter st1 + int n - 1]"
    "feedbackIdCounter st2 = feedbackIdCounter st1 + int n"
    by auto
  have r: "run isEmail (r # rs) st = (resp # resps, st2)"
    using h t by simp
  have same: "feedbackIdCounter st1 = feedbackIdCounter st \<Longrightarrow>
      createdIds (r # rs) (resp # resps) = createdIds rs resps \<Longrightarrow> ?case"
    using ih r by (intro exI [of _ n]) simp
  show ?case
  proof (cases r)
    case (Create now1 now2 b)
    show ?thesis
    proof (cases resp)
      case (Inl e)
      with h Create have "st1 = st" by (auto dest: createFeedback_Inl)
      with Create Inl same show ?thesis by simp
    next
      case (Inr item)
      with h Create have c: "item_id item = feedbackIdCounter st"
        "feedbackIdCounter st1 = feedbackIdCounter st + 1"
        by (auto dest: createFeedback_Inr)
      have "[feedbackIdCounter st .. feedbackIdCounter st + int (Suc n) - 1] =
            feedbackIdCounter st # [feedbackIdCounter st + 1 .. feedbackIdCounter st + 1 + int n - 1]"
        by (subst upto_rec1) (simp_all add: algebra_simps)
      with ih c r Create Inr show ?thesis
        by (intro exI [of _ "Suc n"]) (simp add: algebra_simps)
    qed
  next
    case (Update now ident body)
    with h have "feedbackIdCounter st1 = feedbackIdCounter st"
      using updateFeedback_counter [of now ident body st] by simp
    with Update same show ?thesis by (cases resp) simp_all
  next
    case (Delete ident)
    with h have "feedbackIdCounter st1 = feedbackIdCounter st"
      using deleteFeedback_counter [of ident st] by simp
    with Delete same show ?thesis by (cases resp) simp_all
  qed
qed

lemma ids_part_a:
  "createdIds rs (fst (run isEmail rs initial)) =
     [1 .. int (length (createdIds rs (fst (run isEmail rs initial))))]"
proof -
  from run_counter [of rs isEmail initial] obtain n where
    n: "createdIds rs (fst (run isEmail rs initial)) = [1 .. int n]"
    by (auto simp: initial_def)
  then have "length (createdIds rs (fst (run isEmail rs initial))) = n" by simp
  with n show ?thesis by simp
qed

lemma run_creates_ids:
  "list_all isCreate rs \<Longrightarrow>
     map item_id (feedback (snd (run isEmail rs st))) =
       rev (createdIds rs (fst (run isEmail rs st))) @ map item_id (feedback st)"
proof (induction rs arbitrary: st)
  case Nil
  show ?case by simp
next
  case (Cons r rs)
  from Cons.prems obtain now1 now2 b where r: "r = Create now1 now2 b"
    by (cases r) auto
  obtain resp st1 where h: "createFeedback isEmail now1 now2 b st = (resp, st1)"
    by (cases "createFeedback isEmail now1 now2 b st")
  obtain resps st2 where t: "run isEmail rs st1 = (resps, st2)" by (cases "run isEmail rs st1")
  from Cons.IH [of st1] Cons.prems t
  have ih: "map item_id (feedback st2) = rev (createdIds rs resps) @ map item_id (feedback st1)"
    by simp
  show ?case
  proof (cases resp)
    case (Inl e)
    with h have "st1 = st" by (auto dest: createFeedback_Inl)
    with ih r h t Inl show ?thesis by simp
  next
    case (Inr item)
    with h have "item_id item = feedbackIdCounter st" "feedback st1 = item # feedback st"
      by (auto dest: createFeedback_Inr)
    with ih r h t Inr show ?thesis by simp
  qed
qed

lemma creates_only_counter:
  assumes "list_all isCreate rs"
  shows "feedbackIdCounter (snd (run isEmail rs initial)) =
           (if feedback (snd (run isEmail rs initial)) = [] then 1
            else Max (set (map item_id (feedback (snd (run isEmail rs initial))))) + 1)"
proof -
  from run_counter [of rs isEmail initial] obtain n where
    n: "createdIds rs (fst (run isEmail rs initial)) = [1 .. int n]"
       "feedbackIdCounter (snd (run isEmail rs initial)) = 1 + int n"
    by (auto simp: initial_def)
  from run_creates_ids [OF assms, of isEmail initial] n(1)
  have ids: "map item_id (feedback (snd (run isEmail rs initial))) = rev [1 .. int n]"
    by (simp add: initial_def)
  show ?thesis
  proof (cases n)
    case 0
    with ids n(2) show ?thesis by simp
  next
    case (Suc m)
    then have "Max {1 .. int n} = int n" by (intro Max_eqI) auto
    moreover from Suc have "rev [1 .. int n] \<noteq> []" by simp
    with ids have "feedback (snd (run isEmail rs initial)) \<noteq> []" by auto
    ultimately show ?thesis using ids n(2) by simp
  qed
qed

subsection \<open>The type of a record is one of the four names in every reachable store\<close>

lemma setField_type: "type (setField item kv) = type item"
  by (simp add: setField_def)

lemma foldl_setField_type: "type (foldl setField item kvs) = type item"
  by (induction kvs arbitrary: item) (simp_all add: setField_type)

lemma spread_type: "type (spread item updates now) = type item"
  by (simp add: spread_def foldl_setField_type)

lemma createFeedback_validType:
  assumes "list_all validType (feedback st)"
  shows "list_all validType (feedback (snd (createFeedback isEmail now1 now2 b st)))"
proof (cases "validateFeedback isEmail b = []")
  case True
  then have "b_type b \<in> set [''bug'', ''feature'', ''improvement'', ''other'']"
    by (auto simp: validateFeedback_def split: if_splits)
  with True assms show ?thesis
    by (simp add: createFeedback_def Let_def validType_def)
next
  case False
  with assms show ?thesis by (simp add: createFeedback_def Let_def)
qed

lemma updateFeedback_validType:
  assumes "list_all validType (feedback st)"
  shows "list_all validType (feedback (snd (updateFeedback now ident body st)))"
proof (cases "findIndex (\<lambda>item. Some (item_id item) = ident) (feedback st)")
  case None
  with assms show ?thesis by (simp add: updateFeedback_def)
next
  case (Some i)
  from findIndex_Some [OF Some] have i: "i < length (feedback st)" by simp
  with assms have "validType (feedback st ! i)" by (simp add: list_all_length)
  then have v: "validType (spread (feedback st ! i) (pickUpdates body) now)"
    by (simp add: validType_def spread_type)
  have "list_all validType ((feedback st)[i := spread (feedback st ! i) (pickUpdates body) now])"
    unfolding list_all_iff
  proof
    fix x
    assume "x \<in> set ((feedback st)[i := spread (feedback st ! i) (pickUpdates body) now])"
    then have "x = spread (feedback st ! i) (pickUpdates body) now \<or> x \<in> set (feedback st)"
      using set_update_subset_insert by fastforce
    with v assms show "validType x" by (auto simp: list_all_iff)
  qed
  with Some assms show ?thesis
    by (simp add: updateFeedback_def Let_def)
qed

lemma deleteFeedback_validType:
  assumes "list_all validType (feedback st)"
  shows "list_all validType (feedback (snd (deleteFeedback ident st)))"
proof -
  from deleteFeedback_remaining [of ident st] obtain i where
    "feedback (snd (deleteFeedback ident st)) = take i (feedback st) @ drop (Suc i) (feedback st)"
    by blast
  moreover have "set (take i (feedback st) @ drop (Suc i) (feedback st)) \<subseteq> set (feedback st)"
    using set_take_subset [of i "feedback st"] set_drop_subset [of "Suc i" "feedback st"] by auto
  ultimately show ?thesis using assms by (auto simp: list_all_iff)
qed

lemma run_validType:
  "list_all validType (feedback st) \<Longrightarrow> list_all validType (feedback (snd (run isEmail rs st)))"
proof (induction rs arbitrary: st)
  case Nil
  then show ?case by simp
next
  case (Cons r rs)
  have "list_all validType (feedback (snd (handle isEmail r st)))"
    using Cons.prems
    by (cases r) (simp_all add: createFeedback_validType updateFeedback_validType
        deleteFeedback_validType)
  from Cons.IH [OF this] show ?case
    by (simp add: case_prod_beta)
qed

section \<open>Lemmas about the list endpoint\<close>

lemma compareFn_never_zero: "compareFn sortKey order a b \<noteq> 0"
  by (simp add: compareFn_def Let_def)

lemma js_gt_irrefl: "\<not> js_gt v v"
  by (cases v) simp_all

lemma compareFn_equal_keys:
  "getField a sortKey = getField b sortKey \<Longrightarrow>
     compareFn sortKey order a b = - 1 \<and> compareFn sortKey order b a = - 1"
  by (simp add: compareFn_def Let_def js_gt_irrefl)

text \<open>On two records with equal keys the sort of the engine swaps them, in either order.\<close>

lemma arraySort_swaps_equal_pair:
  "getField a sortKey = getField b sortKey \<Longrightarrow>
     arraySort (compareFn sortKey order) [a, b] = [b, a]"
  using compareFn_equal_keys [of a sortKey b order]
  by (simp add: arraySort_def countAndMakeRun_def binaryInsertionSort_def)

lemma mset_take_drop: "mset (take k xs) + mset (drop k xs) = mset xs"
  by (metis append_take_drop_id mset_append)

lemma mset_insertPivot: "mset (insertPivot cmp a pivot) = add_mset pivot (mset a)"
  by (simp add: insertPivot_def Let_def mset_take_drop)

lemma mset_binaryInsertionSort: "mset (binaryInsertionSort cmp a rest) = mset a + mset rest"
  unfolding binaryInsertionSort_def
  by (induction rest arbitrary: a) (simp_all add: mset_insertPivot)

lemma mset_countAndMakeRun:
  "countAndMakeRun cmp xs = (a, rest) \<Longrightarrow> mset a + mset rest = mset xs"
  by (auto simp: countAndMakeRun_def Let_def mset_take_drop split: list.splits if_splits)

lemma mset_arraySort: "mset (arraySort cmp xs) = mset xs"
proof (cases "length xs < 2")
  case True
  then show ?thesis by (simp add: arraySort_def)
next
  case False
  obtain a rest where c: "countAndMakeRun cmp xs = (a, rest)"
    by (cases "countAndMakeRun cmp xs")
  with False show ?thesis
    by (simp add: arraySort_def mset_binaryInsertionSort mset_countAndMakeRun)
qed

lemma arraySort_rearranges: "rearranges arraySort"
  by (simp add: rearranges_def mset_arraySort)

lemma rearranges_length: "rearranges sortFn \<Longrightarrow> length (sortFn cmp xs) = length xs"
  by (metis rearranges_def size_mset)

lemma rearranges_set: "rearranges sortFn \<Longrightarrow> set (sortFn cmp xs) = set xs"
  by (metis rearranges_def set_mset_mset)

lemma js_slice_page:
  assumes "0 \<le> start" "0 \<le> s"
  shows "js_slice xs start (start + s) = take (nat s) (drop (nat start) xs)"
proof (cases "start < int (length xs)")
  case True
  with assms have m: "nat (min (start + s) (int (length xs)) - start) = min (nat s) (length xs - nat start)"
    by linarith
  from True assms have "js_slice xs start (start + s) =
      take (nat (min (start + s) (int (length xs)) - start)) (drop (nat start) xs)"
    by (simp add: js_slice_def Let_def)
  then show ?thesis unfolding m by (simp add: min_def)
next
  case False
  with assms show ?thesis by (simp add: js_slice_def Let_def min_def)
qed

lemma set_js_slice: "set (js_slice xs start fin) \<subseteq> set xs"
  unfolding js_slice_def Let_def
  by (meson set_take_subset set_drop_subset subset_trans)


lemma applyFilters_matches:
  "applyFilters q fb =
     filter (\<lambda>item. matchesFilter (q_status q) (status item) \<and>
                    matchesFilter (q_type q) (type item) \<and>
                    matchesFilter (q_priority q) (priority item)) fb"
proof -
  have one: "(if filterActive v then filter (\<lambda>item. Some (f item) = v) xs else xs) =
             filter (\<lambda>item. matchesFilter v (f item)) xs" for v f and xs :: "feedback_item list"
    by (cases v) (auto simp: filterActive_def matchesFilter_def intro: filter_cong)
  show ?thesis
    unfolding applyFilters_def Let_def one by (simp add: conj_commute conj_left_commute)
qed

lemma data_getFeedback:
  "data (getFeedback sortFn q fb) =
     js_slice (sortFn (compareFn (sortOf q) (orderOf q)) (applyFilters q fb))
       ((pageOf q - 1) * limitOf q) ((pageOf q - 1) * limitOf q + limitOf q)"
  by (simp add: getFeedback_def Let_def)

lemma pagination_getFeedback:
  "pagination (getFeedback sortFn q fb) =
     \<lparr>currentPage = pageOf q,
      totalPages = ceilDiv (length (sortFn (compareFn (sortOf q) (orderOf q)) (applyFilters q fb)))
                     (limitOf q),
      totalItems = length (sortFn (compareFn (sortOf q) (orderOf q)) (applyFilters q fb)),
      itemsPerPage = limitOf q\<rparr>"
  by (simp add: getFeedback_def Let_def)

section \<open>Lemmas about the statistics\<close>

lemma status_counts_sum:
  "list_all (\<lambda>f. status f \<in> set [''pending'', ''reviewed'', ''resolved'']) fb \<Longrightarrow>
     pending (byStatus (getFeedbackStats fb)) + reviewed (byStatus (getFeedbackStats fb)) +
       resolved (byStatus (getFeedbackStats fb)) = total (getFeedbackStats fb)"
  by (induction fb) (auto simp: getFeedbackStats_def)

lemma priority_counts_sum:
  "list_all (\<lambda>f. priority f \<in> set [''low'', ''medium'', ''high'']) fb \<Longrightarrow>
     low (byPriority (getFeedbackStats fb)) + medium (byPriority (getFeedbackStats fb)) +
       high (byPriority (getFeedbackStats fb)) = total (getFeedbackStats fb)"
  by (induction fb) (auto simp: getFeedbackStats_def)

lemma type_counts_sum:
  "list_all validType fb \<Longrightarrow>
     bug (byType (getFeedbackStats fb)) + feature (byType (getFeedbackStats fb)) +
       improvement (byType (getFeedbackStats fb)) + other (byType (getFeedbackStats fb)) =
     total (getFeedbackStats fb)"
  by (induction fb) (auto simp: getFeedbackStats_def validType_def)

lemma type_counts_sum_reachable:
  "bug (byType (getFeedbackStats (feedback (snd (run isEmail rs initial))))) +
   feature (byType (getFeedbackStats (feedback (snd (run isEmail rs initial))))) +
   improvement (byType (getFeedbackStats (feedback (snd (run isEmail rs initial))))) +
   other (byType (getFeedbackStats (feedback (snd (run isEmail rs initial))))) =
   total (getFeedbackStats (feedback (snd (run isEmail rs initial))))"
  by (rule type_counts_sum, rule run_validType) (simp add: initial_def)

lemma map_fst_bump:
  "map fst (bump acc t) = (if t \<in> set (map fst acc) then map fst acc else map fst acc @ [t])"
  by (induction acc t rule: bump.induct) auto

lemma map_of_bump:
  "map_of (bump acc t) = (map_of acc)(t \<mapsto> (case map_of acc t of None \<Rightarrow> 1 | Some n \<Rightarrow> n + 1))"
  by (induction acc t rule: bump.induct) auto

lemma typeCounts_snoc: "typeCounts (fb @ [f]) = bump (typeCounts fb) (type f)"
  by (simp add: typeCounts_def)

lemma map_of_typeCounts:
  "map_of (typeCounts fb) t = (if countOfType t fb = 0 then None else Some (countOfType t fb))"
proof (induction fb arbitrary: t rule: rev_induct)
  case Nil
  show ?case by (simp add: typeCounts_def countOfType_def)
next
  case (snoc f fb)
  show ?case
  proof (cases "t = type f")
    case True
    with snoc [of "type f"] show ?thesis
      by (simp add: typeCounts_snoc map_of_bump countOfType_def)
  next
    case False
    with snoc [of t] show ?thesis
      by (simp add: typeCounts_snoc map_of_bump countOfType_def)
  qed
qed

lemma set_keys_typeCounts: "set (map fst (typeCounts fb)) = set (map type fb)"
proof (induction fb rule: rev_induct)
  case Nil
  show ?case by (simp add: typeCounts_def)
next
  case (snoc f fb)
  then show ?case
    by (auto simp: typeCounts_snoc map_fst_bump)
qed

lemma keys_split:
  "map fst (typeCounts fb) = ys @ r # zs \<Longrightarrow>
     \<exists>pre post. map type fb = pre @ r # post \<and> r \<notin> set pre \<and> set pre = set ys"
proof (induction fb arbitrary: zs rule: rev_induct)
  case Nil
  then show ?case by (simp add: typeCounts_def)
next
  case (snoc f fb)
  let ?ks = "map fst (typeCounts fb)"
  show ?case
  proof (cases "type f \<in> set ?ks")
    case True
    with snoc.prems have "?ks = ys @ r # zs"
      by (simp add: typeCounts_snoc map_fst_bump)
    from snoc.IH [OF this] obtain pre post where
      "map type fb = pre @ r # post" "r \<notin> set pre" "set pre = set ys" by blast
    then have "map type (fb @ [f]) = pre @ r # (post @ [type f]) \<and> r \<notin> set pre \<and> set pre = set ys"
      by simp
    then show ?thesis by blast
  next
    case False
    with snoc.prems have e: "?ks @ [type f] = ys @ r # zs"
      by (simp add: typeCounts_snoc map_fst_bump)
    show ?thesis
    proof (cases zs rule: rev_cases)
      case Nil
      with e have "?ks = ys" "r = type f" by simp_all
      with False have "map type (fb @ [f]) = map type fb @ r # [] \<and> r \<notin> set (map type fb) \<and>
          set (map type fb) = set ys"
        using set_keys_typeCounts [of fb] by simp
      then show ?thesis by blast
    next
      case (snoc zs' z)
      with e have "?ks = ys @ r # zs'" by simp
      from snoc.IH [OF this] obtain pre post where
        "map type fb = pre @ r # post" "r \<notin> set pre" "set pre = set ys" by blast
      then have "map type (fb @ [f]) = pre @ r # (post @ [type f]) \<and> r \<notin> set pre \<and> set pre = set ys"
        by simp
      then show ?thesis by blast
    qed
  qed
qed

lemma foldl_last_max:
  fixes f :: "'a \<Rightarrow> nat"
  shows "\<exists>ys zs. a # ks = ys @ foldl (\<lambda>a b. if f a > f b then a else b) a ks # zs \<and>
           (\<forall>y\<in>set ys. f y \<le> f (foldl (\<lambda>a b. if f a > f b then a else b) a ks)) \<and>
           (\<forall>z\<in>set zs. f z < f (foldl (\<lambda>a b. if f a > f b then a else b) a ks))"
proof (induction ks rule: rev_induct)
  case Nil
  show ?case by (rule exI [of _ "[]"], rule exI [of _ "[]"]) simp
next
  case (snoc k ks)
  let ?r = "foldl (\<lambda>a b. if f a > f b then a else b) a ks"
  from snoc obtain ys zs where
    d: "a # ks = ys @ ?r # zs" "\<forall>y\<in>set ys. f y \<le> f ?r" "\<forall>z\<in>set zs. f z < f ?r"
    by blast
  from d(1) have "(a # ks) @ [k] = (ys @ ?r # zs) @ [k]"
    by (rule arg_cong)
  then have split: "a # ks @ [k] = ys @ ?r # (zs @ [k])"
    by simp
  show ?case
  proof (cases "f ?r > f k")
    case True
    then have fr: "foldl (\<lambda>a b. if f a > f b then a else b) a (ks @ [k]) = ?r" by simp
    have "\<forall>z\<in>set (zs @ [k]). f z < f ?r"
      using d(3) True by simp
    with split d(2) show ?thesis
      unfolding fr by blast
  next
    case False
    then have fr: "foldl (\<lambda>a b. if f a > f b then a else b) a (ks @ [k]) = k" by simp
    have "\<forall>y\<in>set (a # ks). f y \<le> f ?r"
      unfolding d(1) using d(2,3) by (auto simp: less_imp_le)
    with False have le: "\<forall>y\<in>set (a # ks). f y \<le> f k"
      by (meson le_trans not_less)
    have "a # ks @ [k] = (a # ks) @ k # []" "\<forall>z\<in>set []. f z < f k"
      by simp_all
    with le show ?thesis
      unfolding fr by blast
  qed
qed

lemma getMostCommonType_fold:
  "getMostCommonType fb =
     foldl (\<lambda>a b. if countOfType a fb > countOfType b fb then a else b) ''feature''
       (map fst (typeCounts fb))"
proof -
  have "countGt (map_of (typeCounts fb) a) (map_of (typeCounts fb) b) =
        (countOfType a fb > countOfType b fb)"
    if "b \<in> set (map fst (typeCounts fb))" for a b
  proof -
    from that have "b \<in> set (map type fb)" by (simp only: set_keys_typeCounts)
    then have "countOfType b fb > 0"
      by (auto simp: countOfType_def filter_empty_conv)
    then show ?thesis by (simp add: map_of_typeCounts)
  qed
  then show ?thesis
    unfolding getMostCommonType_def Let_def by (intro foldl_cong) simp_all
qed

section \<open>The claims\<close>

subsection \<open>C1: stable sorting\<close>

text \<open>
  Claim C1 says that records with equal sort keys keep their storage order in the result.
  The comparator has no branch that returns \<open>0\<close>: on two records with equal keys it returns
  \<open>-1\<close> whichever comes first (lemmas \<open>compareFn_never_zero\<close> and \<open>compareFn_equal_keys\<close>), so
  it tells the sort that each of them goes before the other, and the sort cannot keep them
  in place (lemma \<open>arraySort_swaps_equal_pair\<close>). The theorem evaluates the handler on a store
  of two records of priority \<^verbatim>\<open>high\<close>, record 2 stored before record 1, for
  \<^verbatim>\<open>sort=priority\<close>: with the sort of Node.js the result lists record 1 before record 2, in
  descending and in ascending order alike. In the same way the default query lists two
  records with one \<^verbatim>\<open>createdAt\<close>, record 4 stored before record 1, as 1 before 4.
\<close>

theorem sort_reverses_equal_keys:
  "compareFn ''priority'' ''desc'' itemB itemA = - 1 \<and>
   compareFn ''priority'' ''desc'' itemA itemB = - 1 \<and>
   map item_id [itemB, itemA] = [2, 1] \<and>
   map item_id (data (getFeedback arraySort (defaultQuery\<lparr>q_sort := Some ''priority''\<rparr>)
     [itemB, itemA])) = [1, 2] \<and>
   map item_id (data (getFeedback arraySort
     (defaultQuery\<lparr>q_sort := Some ''priority'', q_order := Some ''asc''\<rparr>) [itemB, itemA])) = [1, 2] \<and>
   map createdAt [itemD, itemA] = [5, 5] \<and>
   map item_id [itemD, itemA] = [4, 1] \<and>
   map item_id (data (getFeedback arraySort defaultQuery [itemD, itemA])) = [1, 4]"
  by code_simp

subsection \<open>C2: an update without a recognised key\<close>

text \<open>
  Claim C2 says that an update whose body has no key among \<^verbatim>\<open>status\<close> and \<^verbatim>\<open>priority\<close>
  returns \<open>NoValidFields\<close> and leaves the record as it was. The handler looks the id up
  first: for an id that is not in the store it returns \<open>NotFound\<close>, not \<open>NoValidFields\<close>.
\<close>

theorem update_missing_id_not_found:
  "set (map fst [(''title'', ''x'')]) \<inter> set allowedUpdates = {} \<and>
   fst (updateFeedback 9 (Some 1) [(''title'', ''x'')] initial) = Inl NotFound \<and>
   fst (updateFeedback 9 (Some 1) [(''title'', ''x'')] initial) \<noteq> Inl NoValidFields"
  by (simp add: updateFeedback_def initial_def allowedUpdates_def)

text \<open>
  Claim C2, amended: for every store and every update whose body has no key among
  \<^verbatim>\<open>status\<close> and \<^verbatim>\<open>priority\<close>, the store (every record with every field, \<^verbatim>\<open>updatedAt\<close>
  included, and the id counter) is left exactly as it was, and the response is
  \<open>NoValidFields\<close> when a record with the id exists and \<open>NotFound\<close> when none does.
\<close>

theorem update_without_allowed_key:
  assumes "set (map fst body) \<inter> set allowedUpdates = {}"
  shows "snd (updateFeedback now ident body st) = st \<and>
         fst (updateFeedback now ident body st) =
           (if ident \<in> set (map (\<lambda>item. Some (item_id item)) (feedback st))
            then Inl NoValidFields else Inl NotFound)"
proof (cases "findIndex (\<lambda>item. Some (item_id item) = ident) (feedback st)")
  case None
  then have "ident \<notin> set (map (\<lambda>item. Some (item_id item)) (feedback st))"
    by (auto simp: findIndex_None)
  with None show ?thesis by (simp add: updateFeedback_def)
next
  case (Some i)
  from findIndex_Some [OF Some]
  have "ident \<in> set (map (\<lambda>item. Some (item_id item)) (feedback st))"
    by (metis (mono_tags, lifting) image_eqI nth_mem set_map)
  with Some pickUpdates_empty [OF assms] show ?thesis
    by (simp add: updateFeedback_def)
qed

theorem update_without_allowed_key_witness:
  "set (map fst [(''title'', ''x'')]) \<inter> set allowedUpdates = {} \<and>
   updateFeedback 9 (Some 1) [(''title'', ''x'')] sampleStore = (Inl NoValidFields, sampleStore)"
proof -
  have h: "set (map fst [(''title'', ''x'')]) \<inter> set allowedUpdates = {}"
    by (simp add: allowedUpdates_def)
  have "Some 1 \<in> set (map (\<lambda>item. Some (item_id item)) (feedback sampleStore))"
    by (simp add: sample_defs)
  with update_without_allowed_key [OF h, of 9 "Some 1" sampleStore] h show ?thesis
    by (simp add: prod_eq_iff)
qed

subsection \<open>C3: the enumerations of status and priority\<close>

text \<open>
  Claim C3 says that in every reachable store each status is one of \<^verbatim>\<open>pending\<close>,
  \<^verbatim>\<open>reviewed\<close>, \<^verbatim>\<open>resolved\<close> and each priority one of \<^verbatim>\<open>low\<close>, \<^verbatim>\<open>medium\<close>, \<^verbatim>\<open>high\<close>.
  The create handler checks the priority against its three names; the update handler copies
  the two values from the body without looking at them. The theorem runs a valid create and
  then an update with the status \<^verbatim>\<open>bogus\<close> and the priority \<^verbatim>\<open>urgent\<close>: both requests
  succeed and both values are stored.
\<close>

theorem update_stores_unknown_status:
  "map isl (fst (run sampleIsEmail badUpdate initial)) = [False, False] \<and>
   map status (feedback (snd (run sampleIsEmail badUpdate initial))) = [''bogus''] \<and>
   map priority (feedback (snd (run sampleIsEmail badUpdate initial))) = [''urgent''] \<and>
   ''bogus'' \<notin> set [''pending'', ''reviewed'', ''resolved''] \<and>
   ''urgent'' \<notin> set [''low'', ''medium'', ''high'']"
  by code_simp

subsection \<open>C4: the counts add up to the total\<close>

text \<open>
  Claim C4 says that in every reachable store the three status counts, the four type counts
  and the three priority counts each add up to \<^verbatim>\<open>total\<close>. The counts of the types do (lemma
  \<open>type_counts_sum_reachable\<close>), and so do the other two on a store whose statuses and
  priorities are members of their enumerations (lemmas \<open>status_counts_sum\<close> and
  \<open>priority_counts_sum\<close>). The theorem evaluates the statistics after the two requests of
  C3: one record, and no status or priority count sees it.
\<close>

theorem stats_sum_breaks_after_update:
  "total (getFeedbackStats (feedback (snd (run sampleIsEmail badUpdate initial)))) = 1 \<and>
   byStatus (getFeedbackStats (feedback (snd (run sampleIsEmail badUpdate initial)))) =
     \<lparr>pending = 0, reviewed = 0, resolved = 0\<rparr> \<and>
   byPriority (getFeedbackStats (feedback (snd (run sampleIsEmail badUpdate initial)))) =
     \<lparr>low = 0, medium = 0, high = 0\<rparr> \<and>
   byType (getFeedbackStats (feedback (snd (run sampleIsEmail badUpdate initial)))) =
     \<lparr>bug = 1, feature = 0, improvement = 0, other = 0\<rparr>"
  by code_simp

subsection \<open>C5: ids\<close>

text \<open>
  Claim C5: the ids that a sequence of requests starting from the fresh store hands out to
  its successful creates are \<open>1, 2, ..., N\<close> in this order, whatever updates, deletes and
  rejected creates lie between them (so they are strictly increasing, without gap or
  repetition, and the \<open>k\<close>-th successful create receives \<open>k\<close>). After a sequence of
  creates only, the next successful create receives \<open>1\<close> when the store is empty and the
  largest id of the store plus one otherwise. No operation changes an id: a successful
  create returns the value of the counter and puts the new record before the old ones, an
  update leaves the list of ids as it is, and a delete takes one record out of the list.
\<close>

theorem ids_sequential_and_immutable:
  "createdIds rs (fst (run isEmail rs initial)) =
     [1 .. int (length (createdIds rs (fst (run isEmail rs initial))))] \<and>
   (list_all isCreate rs \<and>
      createFeedback isEmail now1 now2 b (snd (run isEmail rs initial)) = (Inr item, st') \<longrightarrow>
      item_id item =
        (if feedback (snd (run isEmail rs initial)) = [] then 1
         else Max (set (map item_id (feedback (snd (run isEmail rs initial))))) + 1)) \<and>
   (createFeedback isEmail now1 now2 b st = (Inr item, st') \<longrightarrow>
      item_id item = feedbackIdCounter st \<and> feedback st' = item # feedback st) \<and>
   map item_id (feedback (snd (updateFeedback now ident body st))) = map item_id (feedback st) \<and>
   (\<exists>i. feedback (snd (deleteFeedback ident st)) =
          take i (feedback st) @ drop (Suc i) (feedback st))"
proof (intro conjI impI)
  show "createdIds rs (fst (run isEmail rs initial)) =
     [1 .. int (length (createdIds rs (fst (run isEmail rs initial))))]"
    by (rule ids_part_a)
next
  assume a: "list_all isCreate rs \<and>
      createFeedback isEmail now1 now2 b (snd (run isEmail rs initial)) = (Inr item, st')"
  then have "item_id item = feedbackIdCounter (snd (run isEmail rs initial))"
    by (auto dest: createFeedback_Inr)
  with a creates_only_counter [of rs isEmail]
  show "item_id item =
        (if feedback (snd (run isEmail rs initial)) = [] then 1
         else Max (set (map item_id (feedback (snd (run isEmail rs initial))))) + 1)"
    by simp
next
  assume "createFeedback isEmail now1 now2 b st = (Inr item, st')"
  then show "item_id item = feedbackIdCounter st" "feedback st' = item # feedback st"
    by (auto dest: createFeedback_Inr)
next
  show "map item_id (feedback (snd (updateFeedback now ident body st))) = map item_id (feedback st)"
    by (rule updateFeedback_ids)
next
  show "\<exists>i. feedback (snd (deleteFeedback ident st)) =
          take i (feedback st) @ drop (Suc i) (feedback st)"
    by (rule deleteFeedback_remaining)
qed

theorem ids_sequential_and_immutable_witness:
  "list_all isCreate [Create 5 5 sampleBody, Create 6 6 sampleBody] \<and>
   createdIds [Create 5 5 sampleBody, Create 6 6 sampleBody]
     (fst (run sampleIsEmail [Create 5 5 sampleBody, Create 6 6 sampleBody] initial)) = [1, 2] \<and>
   createFeedback sampleIsEmail 7 7 sampleBody
     (snd (run sampleIsEmail [Create 5 5 sampleBody, Create 6 6 sampleBody] initial)) =
     (Inr (sampleItem 3 ''bug'' ''high'' ''pending'' 7),
      \<lparr>feedback = [sampleItem 3 ''bug'' ''high'' ''pending'' 7, itemB, itemA],
       feedbackIdCounter = 4\<rparr>) \<and>
   item_id (sampleItem 3 ''bug'' ''high'' ''pending'' 7) =
     Max (set (map item_id (feedback
       (snd (run sampleIsEmail [Create 5 5 sampleBody, Create 6 6 sampleBody] initial))))) + 1"
proof -
  let ?rs = "[Create 5 5 sampleBody, Create 6 6 sampleBody]"
  let ?item = "sampleItem 3 ''bug'' ''high'' ''pending'' 7"
  let ?st' = "\<lparr>feedback = [?item, itemB, itemA], feedbackIdCounter = 4\<rparr>"
  have h1: "list_all isCreate ?rs" by simp
  have r: "run sampleIsEmail ?rs initial =
      ([Inr itemA, Inr itemB], \<lparr>feedback = [itemB, itemA], feedbackIdCounter = 3\<rparr>)"
    by code_simp
  have h2: "createFeedback sampleIsEmail 7 7 sampleBody (snd (run sampleIsEmail ?rs initial)) =
      (Inr ?item, ?st')"
    by code_simp
  have ids: "createdIds ?rs (fst (run sampleIsEmail ?rs initial)) = [1, 2]"
    by code_simp
  have ne: "feedback (snd (run sampleIsEmail ?rs initial)) \<noteq> []"
    unfolding r by simp
  from ids_sequential_and_immutable [of ?rs sampleIsEmail 7 7 sampleBody ?item ?st'] h1 h2 ne
  have "item_id ?item =
      Max (set (map item_id (feedback (snd (run sampleIsEmail ?rs initial))))) + 1"
    by simp
  with h1 h2 ids show ?thesis by blast
qed

subsection \<open>C6: what an update of the priority leaves alone\<close>

text \<open>
  Claim C6: let record \<open>i\<close> be the first record of the store with id \<open>n\<close>. The update of
  \<open>n\<close> with the body \<^verbatim>\<open>{priority: "high"}\<close> succeeds; the record it returns and stores at
  \<open>i\<close> is the old one with \<^verbatim>\<open>priority\<close> set to \<^verbatim>\<open>high\<close> and \<^verbatim>\<open>updatedAt\<close> set to the time of
  the request, so its id, title, description, type, email, status and \<^verbatim>\<open>createdAt\<close> are
  those of the old record; every other record of the store, the length of the store and the
  id counter are unchanged.
\<close>

theorem update_priority_high_frame:
  assumes "i < length (feedback st)"
    and "item_id (feedback st ! i) = n"
    and "\<forall>j<i. item_id (feedback st ! j) \<noteq> n"
  shows "\<exists>item st'.
           updateFeedback now (Some n) [(''priority'', ''high'')] st = (Inr item, st') \<and>
           item = (feedback st ! i)\<lparr>priority := ''high'', updatedAt := now\<rparr> \<and>
           item_id item = item_id (feedback st ! i) \<and>
           title item = title (feedback st ! i) \<and>
           description item = description (feedback st ! i) \<and>
           type item = type (feedback st ! i) \<and>
           email item = email (feedback st ! i) \<and>
           status item = status (feedback st ! i) \<and>
           createdAt item = createdAt (feedback st ! i) \<and>
           priority item = ''high'' \<and>
           updatedAt item = now \<and>
           feedback st' = (feedback st)[i := item] \<and>
           length (feedback st') = length (feedback st) \<and>
           (\<forall>j. j \<noteq> i \<longrightarrow> feedback st' ! j = feedback st ! j) \<and>
           feedbackIdCounter st' = feedbackIdCounter st"
proof -
  let ?item = "(feedback st ! i)\<lparr>priority := ''high'', updatedAt := now\<rparr>"
  let ?st' = "st\<lparr>feedback := (feedback st)[i := ?item]\<rparr>"
  from assms have "updateFeedback now (Some n) [(''priority'', ''high'')] st = (Inr ?item, ?st')"
    by (rule updateFeedback_priority_high)
  then show ?thesis
    by (intro exI [of _ ?item] exI [of _ ?st']) simp
qed

theorem update_priority_high_frame_witness:
  "2 < length (feedback sampleStore) \<and> item_id (feedback sampleStore ! 2) = 1 \<and>
   updateFeedback 9 (Some 1) [(''priority'', ''high'')] sampleStore =
     (Inr (itemA\<lparr>updatedAt := 9\<rparr>),
      \<lparr>feedback = [itemC, itemB, itemA\<lparr>updatedAt := 9\<rparr>], feedbackIdCounter = 4\<rparr>)"
proof -
  have h1: "2 < length (feedback sampleStore)" by (simp add: sampleStore_def)
  have h2: "item_id (feedback sampleStore ! 2) = 1" by (simp add: sample_defs)
  have h3: "\<forall>j<2. item_id (feedback sampleStore ! j) \<noteq> 1"
  proof (intro allI impI)
    fix j :: nat
    assume "j < 2"
    then have "j = 0 \<or> j = 1" by linarith
    then show "item_id (feedback sampleStore ! j) \<noteq> 1"
      by (auto simp: sample_defs)
  qed
  from update_priority_high_frame [OF h1 h2 h3, of 9] h1 h2 show ?thesis
    by (auto simp: sample_defs)
qed

subsection \<open>C7: pagination\<close>



subsection \<open>C8: filtering\<close>

text \<open>
  Claim C8 says that the result holds exactly the records that are equal to every supplied
  filter value, where only an absent parameter and the value \<^verbatim>\<open>all\<close> impose no constraint.
  The guard \<^verbatim>\<open>status && status !== 'all'\<close> also skips the empty string: for \<^verbatim>\<open>?status=\<close>
  the response holds a record whose status is \<^verbatim>\<open>pending\<close>.
\<close>

theorem empty_status_filter_no_constraint:
  "q_status (defaultQuery\<lparr>q_status := Some ''''\<rparr>) = Some '''' \<and>
   status itemA = ''pending'' \<and>
   data (getFeedback arraySort (defaultQuery\<lparr>q_status := Some ''''\<rparr>) [itemA]) = [itemA]"
  by code_simp

text \<open>
  Claim C8, amended: a filter parameter that is absent, empty or \<^verbatim>\<open>all\<close> imposes no
  constraint; the filtered records are exactly the records of the store that are equal to
  every other supplied parameter in the parameter's field. Every record of the response is
  one of them, \<^verbatim>\<open>totalItems\<close> is their number, and a first page that is long enough holds
  all of them. This holds for every sort that rearranges its input.
\<close>

theorem filters_select_matching:
  assumes "rearranges sortFn"
  shows "applyFilters q fb =
           filter (\<lambda>item. matchesFilter (q_status q) (status item) \<and>
                          matchesFilter (q_type q) (type item) \<and>
                          matchesFilter (q_priority q) (priority item)) fb \<and>
         set (data (getFeedback sortFn q fb)) \<subseteq> set (applyFilters q fb) \<and>
         totalItems (pagination (getFeedback sortFn q fb)) = length (applyFilters q fb) \<and>
         (pageOf q = 1 \<and> int (length fb) \<le> limitOf q \<longrightarrow>
            mset (data (getFeedback sortFn q fb)) = mset (applyFilters q fb))"
proof -
  let ?S = "sortFn (compareFn (sortOf q) (orderOf q)) (applyFilters q fb)"
  from assms have len: "length ?S = length (applyFilters q fb)"
    by (rule rearranges_length)
  from assms have st: "set ?S = set (applyFilters q fb)"
    by (rule rearranges_set)
  from assms have ms: "mset ?S = mset (applyFilters q fb)"
    by (simp add: rearranges_def)
  have sub: "set (data (getFeedback sortFn q fb)) \<subseteq> set (applyFilters q fb)"
    unfolding data_getFeedback using set_js_slice [of ?S] st by simp
  from len have t: "totalItems (pagination (getFeedback sortFn q fb)) = length (applyFilters q fb)"
    by (simp add: pagination_getFeedback)
  have all: "mset (data (getFeedback sortFn q fb)) = mset (applyFilters q fb)"
    if "pageOf q = 1 \<and> int (length fb) \<le> limitOf q"
  proof -
    have "length (applyFilters q fb) \<le> length fb"
      by (simp add: applyFilters_matches)
    with that len have big: "length ?S \<le> nat (limitOf q)" by linarith
    from that have "0 \<le> limitOf q" by linarith
    with that js_slice_page [of 0 "limitOf q" ?S] big
    have "data (getFeedback sortFn q fb) = ?S"
      by (simp add: data_getFeedback)
    with ms show ?thesis by simp
  qed
  from applyFilters_matches [of q fb] sub t all show ?thesis by blast
qed

theorem filters_select_matching_witness:
  "rearranges (arraySort :: feedback_item sortfn) \<and>
   applyFilters (defaultQuery\<lparr>q_status := Some ''resolved''\<rparr>) [itemC, itemB, itemA] = [itemC] \<and>
   mset (data (getFeedback arraySort (defaultQuery\<lparr>q_status := Some ''resolved''\<rparr>)
     [itemC, itemB, itemA])) = {#itemC#} \<and>
   totalItems (pagination (getFeedback arraySort (defaultQuery\<lparr>q_status := Some ''resolved''\<rparr>)
     [itemC, itemB, itemA])) = 1"
proof -
  let ?q = "defaultQuery\<lparr>q_status := Some ''resolved''\<rparr>"
  let ?fb = "[itemC, itemB, itemA]"
  have h1: "rearranges (arraySort :: feedback_item sortfn)" by (rule arraySort_rearranges)
  have f: "applyFilters ?q ?fb = [itemC]" by code_simp
  have p: "pageOf ?q = 1" "limitOf ?q = 10" by (simp_all add: pageOf_def limitOf_def defaultQuery_def)
  from filters_select_matching [OF h1, of ?q ?fb] h1 show ?thesis
    unfolding f p by simp
qed

subsection \<open>C9: the most common type\<close>

text \<open>
  Claim C9 says that among the types with the largest count the one met first wins. The
  reduction keeps its accumulator only when its count is strictly larger, so on equal
  counts the later key wins: for a store with one record of type \<^verbatim>\<open>other\<close> followed by one
  of type \<^verbatim>\<open>bug\<close> the result is \<^verbatim>\<open>bug\<close>.
\<close>

theorem most_common_tie_goes_to_last:
  "map type [itemC, itemB] = [''other'', ''bug''] \<and>
   countOfType ''other'' [itemC, itemB] = countOfType ''bug'' [itemC, itemB] \<and>
   getMostCommonType [itemC, itemB] = ''bug''"
  by code_simp

text \<open>
  Claim C9, amended: the result is \<^verbatim>\<open>feature\<close> for the empty store. Otherwise it is a type
  of the store with the largest count, and among the types with the largest count it is the
  one whose first record comes last in the store: every type that first appears after the
  first record of the result has a strictly smaller count.
\<close>

theorem most_common_type_last_maximum:
  assumes "set (map type fb) \<subseteq> set [''bug'', ''feature'', ''improvement'', ''other'']"
  shows "(fb = [] \<longrightarrow> getMostCommonType fb = ''feature'') \<and>
         (fb \<noteq> [] \<longrightarrow>
            getMostCommonType fb \<in> set (map type fb) \<and>
            (\<forall>t. countOfType t fb \<le> countOfType (getMostCommonType fb) fb) \<and>
            (\<exists>pre post. map type fb = pre @ getMostCommonType fb # post \<and>
               getMostCommonType fb \<notin> set pre \<and>
               (\<forall>t\<in>set post. t \<notin> set pre \<and> t \<noteq> getMostCommonType fb \<longrightarrow>
                  countOfType t fb < countOfType (getMostCommonType fb) fb)))"
proof (intro conjI impI)
  assume "fb = []"
  then show "getMostCommonType fb = ''feature''"
    by (simp add: getMostCommonType_def typeCounts_def)
next
  assume ne: "fb \<noteq> []"
  let ?c = "\<lambda>t. countOfType t fb"
  let ?ks = "map fst (typeCounts fb)"
  let ?r = "getMostCommonType fb"
  have keys: "set ?ks = set (map type fb)" by (rule set_keys_typeCounts)
  have pos: "0 < ?c t \<longleftrightarrow> t \<in> set ?ks" for t
    unfolding keys by (auto simp: countOfType_def filter_empty_conv)
  from foldl_last_max [of "''feature''" ?ks ?c] obtain ys zs where
    d: "''feature'' # ?ks = ys @ ?r # zs" "\<forall>y\<in>set ys. ?c y \<le> ?c ?r" "\<forall>z\<in>set zs. ?c z < ?c ?r"
    unfolding getMostCommonType_fold by blast
  from ne keys have kne: "?ks \<noteq> []" by auto
  have "ys \<noteq> []"
  proof
    assume "ys = []"
    with d(1) have r: "?r = ''feature''" and zs: "zs = ?ks" by simp_all
    from kne obtain k where k: "k \<in> set ?ks" by (cases ?ks) auto
    with d(3) zs r have "?c k < ?c ''feature''" by auto
    then have "''feature'' \<in> set ?ks" using pos [of "''feature''"] by simp
    with d(3) zs r show False by auto
  qed
  with d(1) obtain ys' where ys: "ys = ''feature'' # ys'" and ks: "?ks = ys' @ ?r # zs"
    by (cases ys) auto
  from ks have rin: "?r \<in> set ?ks" by (metis in_set_conv_decomp)
  have kset: "set ?ks = set ys' \<union> {?r} \<union> set zs"
    by (subst ks) auto
  show "?r \<in> set (map type fb)" using rin keys by simp
  show "\<forall>t. ?c t \<le> ?c ?r"
  proof
    fix t
    show "?c t \<le> ?c ?r"
    proof (cases "t \<in> set ?ks")
      case True
      with kset d(2,3) ys show ?thesis by (auto simp: less_imp_le)
    next
      case False
      with pos [of t] show ?thesis by simp
    qed
  qed
  from keys_split [OF ks] obtain pre post where
    p: "map type fb = pre @ ?r # post" "?r \<notin> set pre" "set pre = set ys'" by blast
  have "\<forall>t\<in>set post. t \<notin> set pre \<and> t \<noteq> ?r \<longrightarrow> ?c t < ?c ?r"
  proof (intro ballI impI)
    fix t
    assume "t \<in> set post" and n: "t \<notin> set pre \<and> t \<noteq> ?r"
    with p(1) have "t \<in> set (map type fb)" by (subst p(1)) simp
    with keys kset n p(3) have "t \<in> set zs" by auto
    with d(3) show "?c t < ?c ?r" by simp
  qed
  with p(1,2) show "\<exists>pre post. map type fb = pre @ ?r # post \<and> ?r \<notin> set pre \<and>
      (\<forall>t\<in>set post. t \<notin> set pre \<and> t \<noteq> ?r \<longrightarrow> ?c t < ?c ?r)"
    by blast
qed

theorem most_common_type_last_maximum_witness:
  "set (map type [itemC, itemB, itemA]) \<subseteq> set [''bug'', ''feature'', ''improvement'', ''other''] \<and>
   [itemC, itemB, itemA] \<noteq> [] \<and>
   getMostCommonType [itemC, itemB, itemA] \<in> set (map type [itemC, itemB, itemA]) \<and>
   countOfType ''other'' [itemC, itemB, itemA] \<le>
     countOfType (getMostCommonType [itemC, itemB, itemA]) [itemC, itemB, itemA]"
proof -
  let ?fb = "[itemC, itemB, itemA]"
  have h: "set (map type ?fb) \<subseteq> set [''bug'', ''feature'', ''improvement'', ''other'']"
    by (simp add: sample_defs)
  from most_common_type_last_maximum [OF h] h show ?thesis by blast
qed

subsection \<open>C10: the statistics of the list endpoint\<close>

text \<open>
  Claim C10: the \<^verbatim>\<open>stats\<close> object of the list response is computed from the whole store.
  It is the same for any two queries against one store, whatever their filters, and its
  four numbers are the size of the store and the numbers of its pending, reviewed and
  resolved records.
\<close>

theorem list_stats_ignore_filters:
  "stats (getFeedback sortFn q fb) = stats (getFeedback sortFn q' fb) \<and>
   stats (getFeedback sortFn q fb) =
     \<lparr>s_total = length fb,
      s_pending = length (filter (\<lambda>f. status f = ''pending'') fb),
      s_reviewed = length (filter (\<lambda>f. status f = ''reviewed'') fb),
      s_resolved = length (filter (\<lambda>f. status f = ''resolved'') fb)\<rparr>"
  by (simp add: getFeedback_def Let_def)

end
